theory Spec2Isabelle
  imports Complex_Main
begin

section \<open>smile/keyboard.py: the KeyPress state\<close>

text \<open>
  A shallow embedding of the class \<open>KeyPress\<close> of \<open>smile/keyboard.py\<close>. Python values
  that the class compares or tests for truth are values of \<open>pyval\<close>; clock readings and
  durations are Python numbers and are modelled as reals (the rounding of floating point
  arithmetic is not modelled). An exception raised by the Python is the left summand of a
  result \<open>error + keypress\<close>.
\<close>

subsection \<open>Python values\<close>

datatype pyval = PNone | PBool bool | PNum real | PStr string | PList "pyval list"

datatype error = TypeError

text \<open>\<open>isinstance(v, list)\<close>.\<close>

fun is_list :: "pyval \<Rightarrow> bool" where
  "is_list (PList xs) = True"
| "is_list v = False"

text \<open>
  The two statements \<open>if not isinstance(keys, list): keys = [keys]\<close> of \<open>__init__\<close>
  (lines 76-77 and 79-80): a list is kept, anything else becomes a one-element list.
\<close>

fun as_list :: "pyval \<Rightarrow> pyval list" where
  "as_list (PList xs) = xs"
| "as_list v = [v]"

text \<open>Python's truth value of an object, as \<open>elif val(self.wait_until):\<close> tests it.\<close>

fun truthy :: "pyval \<Rightarrow> bool" where
  "truthy PNone = False"
| "truthy (PBool b) = b"
| "truthy (PNum x) = (x \<noteq> 0)"
| "truthy (PStr s) = (s \<noteq> [])"
| "truthy (PList xs) = (xs \<noteq> [])"

text \<open>
  \<open>str.upper()\<close> on a Python 2 byte string: the ASCII letters \<open>a\<close>..\<open>z\<close> (codes 97..122)
  are moved to \<open>A\<close>..\<open>Z\<close>, every other byte is kept.
\<close>

definition is_lower :: "char \<Rightarrow> bool" where
  "is_lower c = (97 \<le> (of_char c :: nat) \<and> (of_char c :: nat) \<le> 122)"

definition upper_char :: "char \<Rightarrow> char" where
  "upper_char c = (if is_lower c then char_of ((of_char c :: nat) - 32) else c)"

definition str_upper :: "string \<Rightarrow> string" where
  "str_upper s = map upper_char s"

text \<open>
  Modelled from the spec: \<open>ref.val\<close> is not under src/. The spec (4.8) says that a
  literal value is returned as it is; lazy references are not modelled, so every
  configured value is a literal.
\<close>

definition val :: "'a \<Rightarrow> 'a" where
  "val v = v"

subsection \<open>Events and the dispatcher\<close>

text \<open>
  The \<open>event_time\<close> argument of \<open>_key_callback\<close> is a dictionary read at the key
  \<open>'time'\<close>; the callback's arguments \<open>keycode, text, modifiers, event_time\<close> are the
  fields of a key event. \<open>keycode[1]\<close> is the key's name.
\<close>

record event_time =
  time :: real

record key_event =
  keycode :: "nat \<times> string"
  text_of :: string
  modifiers :: "string list"
  event_time :: event_time

text \<open>
  A callback registered with the dispatcher is the bound method \<open>_key_callback\<close> of one
  state object, identified by that object's identity.
\<close>

datatype callback = Key_callback nat

text \<open>
  Modelled from the spec: \<open>exp.app\<close> with \<open>add_callback\<close> and \<open>remove_callback\<close> is not
  under src/. The spec (2, 3, 6) describes it as a registry from an event kind to an
  ordered list of callbacks. \<open>add_callback\<close> appends a registration; \<open>remove_callback\<close>
  removes the first registration of the callback, and does nothing when there is none.
\<close>

type_synonym dispatcher = "string \<Rightarrow> callback list"

definition add_callback :: "string \<Rightarrow> callback \<Rightarrow> dispatcher \<Rightarrow> dispatcher" where
  "add_callback kind fn d = d(kind := d kind @ [fn])"

definition remove_callback :: "string \<Rightarrow> callback \<Rightarrow> dispatcher \<Rightarrow> dispatcher" where
  "remove_callback kind fn d = d(kind := remove1 fn (d kind))"

subsection \<open>The state object\<close>

text \<open>
  The attributes that \<open>KeyPress\<close> sets in \<open>__init__\<close>, in the order of the source, then
  \<open>state_time\<close> and \<open>active\<close> of the base class \<open>State\<close>, the object's identity and
  the dispatcher \<open>self.exp.app\<close> that the state reaches through its experiment.
\<close>

record keypress =
  keys :: "pyval list"
  correct_resp :: "pyval list"
  base_time_src :: "real option"
  base_time :: "real option"
  wait_duration :: "real option"
  wait_until :: pyval
  pressed :: string
  press_time :: "event_time option"
  correct :: bool
  rt :: "real option"
  waiting :: bool
  state_time :: "real option"
  active :: bool
  ident :: nat
  app :: dispatcher

definition self_key_callback :: "keypress \<Rightarrow> callback" where
  "self_key_callback s = Key_callback (ident s)"

definition registered :: "keypress \<Rightarrow> bool" where
  "registered s = (self_key_callback s \<in> set (app s ''KEY_DOWN''))"

text \<open>
  \<open>KeyPress.__init__\<close> (lines 67-105). The arguments \<open>parent\<close>, \<open>save_log\<close> and \<open>name\<close>
  go to the base class and \<open>log_attrs\<close> to the logger; they are left out. The object's
  identity and the dispatcher of its experiment are given. A duration of \<open>-1\<close> means no
  bound. Before the state is entered it has no \<open>state_time\<close> and is not active.
\<close>

definition KeyPress_init ::
  "nat \<Rightarrow> dispatcher \<Rightarrow> pyval \<Rightarrow> pyval \<Rightarrow> real option \<Rightarrow> pyval \<Rightarrow> real option \<Rightarrow> keypress" where
  "KeyPress_init i d keys_arg correct_resp_arg base_time_arg until duration =
     \<lparr> keys = as_list keys_arg,
       correct_resp = as_list correct_resp_arg,
       base_time_src = base_time_arg,
       base_time = None,
       wait_duration = (if duration = Some (- 1) then None else duration),
       wait_until = until,
       pressed = [],
       press_time = None,
       correct = False,
       rt = None,
       waiting = False,
       state_time = None,
       active = False,
       ident = i,
       app = d \<rparr>"

text \<open>\<open>KeyPress._enter\<close> (lines 107-113): reset the response fields and the base time.\<close>

definition KeyPress_enter :: "keypress \<Rightarrow> keypress" where
  "KeyPress_enter s =
     s\<lparr> pressed := [], press_time := None, correct := False, rt := None, base_time := None \<rparr>"

text \<open>
  \<open>KeyPress._leave\<close> (lines 160-164): remove the keyboard callback, stop waiting.
\<close>

definition KeyPress_leave :: "keypress \<Rightarrow> keypress" where
  "KeyPress_leave s =
     s\<lparr> app := remove_callback ''KEY_DOWN'' (self_key_callback s) (app s), waiting := False \<rparr>"

text \<open>
  Modelled from the spec: \<open>State.enter\<close> and \<open>State.leave\<close> of \<open>state.py\<close> are not
  under src/. By the spec (4.1), entering captures the start time (the attribute
  \<open>state_time\<close> that \<open>_callback\<close> reads), makes the state active and resets its
  per-run fields (the hook \<open>_enter\<close>); leaving makes the state finished and unregisters
  its callbacks (the hook \<open>_leave\<close>), and a second leave is a no-op. The capture of
  \<open>end_time\<close> and the hand-off to the logger are left out.
\<close>

definition State_enter :: "real \<Rightarrow> keypress \<Rightarrow> keypress" where
  "State_enter t s = KeyPress_enter (s\<lparr> state_time := Some t, active := True \<rparr>)"

definition State_leave :: "keypress \<Rightarrow> keypress" where
  "State_leave s = (if active s then KeyPress_leave (s\<lparr> active := False \<rparr>) else s)"

text \<open>
  The test \<open>None in keys or sym_str in keys\<close> of line 122, on the uppercased name of
  the key.
\<close>

definition qualifies :: "pyval list \<Rightarrow> key_event \<Rightarrow> bool" where
  "qualifies ks ev =
     (PNone \<in> set ks \<or> PStr (str_upper (snd (keycode ev))) \<in> set ks)"

text \<open>
  \<open>KeyPress._key_callback\<close> (lines 115-141). \<open>claim_exceptions\<close> touches no attribute.
  The subtraction of line 134 raises TypeError when \<open>base_time\<close> is None; the result
  is then the error alone, without the assignments of lines 124-125 that precede it.
\<close>

definition KeyPress_key_callback :: "key_event \<Rightarrow> keypress \<Rightarrow> error + keypress" where
  "KeyPress_key_callback ev s =
     (let ks = val (keys s);
          cr = val (correct_resp s);
          sym_str = str_upper (snd (keycode ev))
      in if PNone \<in> set ks \<or> PStr sym_str \<in> set ks then
           (let s1 = s\<lparr> pressed := sym_str, press_time := Some (event_time ev) \<rparr>
            in case base_time s1 of
                 None \<Rightarrow> Inl TypeError
               | Some b \<Rightarrow>
                   (let s2 = s1\<lparr> rt := Some (time (event_time ev) - b) \<rparr>;
                        s3 = (if PStr (pressed s2) \<in> set cr then s2\<lparr> correct := True \<rparr> else s2)
                    in Inr (State_leave s3)))
         else Inr s)"

text \<open>
  \<open>KeyPress._callback\<close> (lines 143-158) in its three parts: subscribing (lines 144-147),
  filling the base time (lines 148-152) and the exit test (lines 153-158), which reads
  the clock (\<open>now\<close>). The argument \<open>dt\<close> is not used by the source. The sum of line 155
  raises TypeError when \<open>base_time\<close> is still None.
\<close>

definition subscribe :: "keypress \<Rightarrow> keypress" where
  "subscribe s =
     (if \<not> waiting s
      then s\<lparr> app := add_callback ''KEY_DOWN'' (self_key_callback s) (app s), waiting := True \<rparr>
      else s)"

definition fill_base_time :: "keypress \<Rightarrow> keypress" where
  "fill_base_time s =
     (if base_time s = None then
        (let s1 = s\<lparr> base_time := val (base_time_src s) \<rparr>
         in if base_time s1 = None then s1\<lparr> base_time := state_time s1 \<rparr> else s1)
      else s)"

definition exit_test :: "real \<Rightarrow> keypress \<Rightarrow> error + keypress" where
  "exit_test now s =
     (case val (wait_duration s) of
        None \<Rightarrow> (if truthy (val (wait_until s)) then Inr (State_leave s) else Inr s)
      | Some d \<Rightarrow>
          (case base_time s of
             None \<Rightarrow> Inl TypeError
           | Some b \<Rightarrow>
               if now \<ge> b + d then Inr (State_leave s)
               else if truthy (val (wait_until s)) then Inr (State_leave s)
               else Inr s))"

definition KeyPress_callback :: "real \<Rightarrow> keypress \<Rightarrow> error + keypress" where
  "KeyPress_callback now s = exit_test now (fill_base_time (subscribe s))"

subsection \<open>The life of one activation\<close>

text \<open>
  Modelled from the spec: the scheduler and the event loop that call the methods of a
  state are not under src/. By the spec (4.1, 5), a poll tick at a clock reading
  reaches the state while it is active; a key event is dispatched, between ticks, to the
  callbacks registered for \<open>KEY_DOWN\<close>; the parent can force the state to leave. An
  exception ends the run.
\<close>

datatype input = Tick real | KeyDown key_event | ForceLeave

fun step :: "input \<Rightarrow> keypress \<Rightarrow> error + keypress" where
  "step (Tick now) s = (if active s then KeyPress_callback now s else Inr s)"
| "step (KeyDown ev) s = (if registered s then KeyPress_key_callback ev s else Inr s)"
| "step ForceLeave s = Inr (State_leave s)"

fun run :: "input list \<Rightarrow> keypress \<Rightarrow> error + keypress" where
  "run [] s = Inr s"
| "run (i # is) s = (case step i s of Inl e \<Rightarrow> Inl e | Inr s' \<Rightarrow> run is s')"

text \<open>The response fields at their values of \<open>_enter\<close>.\<close>

definition no_response :: "keypress \<Rightarrow> bool" where
  "no_response s = (pressed s = [] \<and> press_time s = None \<and> \<not> correct s \<and> rt s = None)"

subsection \<open>Notions used by the properties\<close>

text \<open>
  A state that is not subscribed: it is not waiting and the dispatcher holds no
  registration of its key callback. This is the state \<open>__init__\<close> builds when the
  dispatcher does not know the new object, and the state every exit leaves.
\<close>

definition unsubscribed :: "keypress \<Rightarrow> bool" where
  "unsubscribed s = (\<not> waiting s \<and> \<not> registered s)"

text \<open>
  What holds of an entered state after any sequence of ticks, key events and forced
  leaves: it has a start time; it waits exactly when its callback is registered, and
  the callback is registered at most once; while it waits it is active and has a base
  time; while it is active no response has been recorded.
\<close>

definition lifecycle_inv :: "keypress \<Rightarrow> bool" where
  "lifecycle_inv s =
     (state_time s \<noteq> None \<and>
      waiting s = registered s \<and>
      count_list (app s ''KEY_DOWN'') (self_key_callback s) \<le> 1 \<and>
      (waiting s \<longrightarrow> active s \<and> base_time s \<noteq> None) \<and>
      (active s \<longrightarrow> no_response s))"

text \<open>
  The base time that an activation entered at time \<open>t\<close> computes in lines 148-152: the
  supplied base time, or the start time when none was supplied.
\<close>

definition reference_time :: "real \<Rightarrow> keypress \<Rightarrow> real" where
  "reference_time t s = (case base_time_src s of None \<Rightarrow> t | Some b \<Rightarrow> b)"

text \<open>
  What holds of an activation of \<open>s0\<close> entered at time \<open>t\<close>, whatever it receives: the
  start time and the supplied base time are those of the entry, and the base time is
  not set or is the reference time.
\<close>

definition reference_inv :: "real \<Rightarrow> keypress \<Rightarrow> keypress \<Rightarrow> bool" where
  "reference_inv t s0 s =
     (state_time s = Some t \<and> base_time_src s = base_time_src s0 \<and>
      (base_time s = None \<or> base_time s = Some (reference_time t s0)))"

text \<open>
  What holds of an activation of \<open>s0\<close> entered at time \<open>t\<close> as long as no key event
  qualifies: the configuration is that of \<open>s0\<close>, the base time is not set or is the
  reference time, and no response has been recorded.
\<close>

definition quiet_inv :: "real \<Rightarrow> keypress \<Rightarrow> keypress \<Rightarrow> bool" where
  "quiet_inv t s0 s =
     (state_time s = Some t \<and> keys s = keys s0 \<and>
      wait_duration s = wait_duration s0 \<and> wait_until s = wait_until s0 \<and>
      base_time_src s = base_time_src s0 \<and>
      (base_time s = None \<or> base_time s = Some (reference_time t s0)) \<and>
      no_response s)"

text \<open>A string with a lowercase ASCII letter in it.\<close>

definition has_lower :: "string \<Rightarrow> bool" where
  "has_lower x = (\<exists>c \<in> set x. is_lower c)"

text \<open>
  An entry of \<open>keys\<close> or of \<open>correct_resp\<close> that is a string with a lowercase
  letter in it.
\<close>

definition lower_entry :: "pyval \<Rightarrow> bool" where
  "lower_entry v = (case v of PStr k \<Rightarrow> has_lower k | _ \<Rightarrow> False)"

text \<open>
  The state of the source's own test, \<open>KeyPress(keys=['J','K'], correct_resp='K')\<close>,
  here with a duration of two seconds and a dispatcher with no registration, and a key
  event for the key named \<open>name\<close> at time \<open>t\<close>.
\<close>

definition example_keypress :: keypress where
  "example_keypress =
     KeyPress_init 1 (\<lambda>kind. []) (PList [PStr ''J'', PStr ''K'']) (PStr ''K'')
       None PNone (Some 2)"

definition example_event :: "string \<Rightarrow> real \<Rightarrow> key_event" where
  "example_event name t =
     \<lparr> keycode = (0, name), text_of = name, modifiers = [], event_time = \<lparr> time = t \<rparr> \<rparr>"

section \<open>Properties\<close>

subsection \<open>Uppercasing\<close>

lemma upper_char_not_lower: "\<not> is_lower (upper_char c)"
  unfolding upper_char_def is_lower_def
  by (auto simp: of_char_of)

lemma str_upper_no_lower: "\<not> has_lower (str_upper x)"
  by (auto simp: has_lower_def str_upper_def upper_char_not_lower)

lemma upper_char_idem: "upper_char (upper_char c) = upper_char c"
  using upper_char_not_lower [of c] by (simp add: upper_char_def)

lemma str_upper_idem: "str_upper (str_upper x) = str_upper x"
  by (simp add: str_upper_def upper_char_idem)

lemma upper_examples:
  "str_upper ''k'' = ''K''" "str_upper ''q'' = ''Q''" "str_upper ''K'' = ''K''"
  by code_simp+

subsection \<open>The key callback\<close>

lemma key_callback_ignored:
  "\<not> qualifies (keys s) ev \<Longrightarrow> KeyPress_key_callback ev s = Inr s"
  by (simp add: KeyPress_key_callback_def qualifies_def val_def)

lemma key_callback_accepted:
  assumes "qualifies (keys s) ev" and "base_time s = Some b"
  shows "KeyPress_key_callback ev s =
         Inr (State_leave
               (s\<lparr> pressed := str_upper (snd (keycode ev)),
                   press_time := Some (event_time ev),
                   rt := Some (time (event_time ev) - b),
                   correct := (correct s \<or>
                               PStr (str_upper (snd (keycode ev))) \<in> set (correct_resp s)) \<rparr>))"
  using assms
  by (auto simp: KeyPress_key_callback_def qualifies_def val_def Let_def)

lemma key_callback_no_base_time:
  "qualifies (keys s) ev \<Longrightarrow> base_time s = None \<Longrightarrow> KeyPress_key_callback ev s = Inl TypeError"
  by (auto simp: KeyPress_key_callback_def qualifies_def val_def Let_def)

lemma State_leave_fields:
  "pressed (State_leave s) = pressed s" "press_time (State_leave s) = press_time s"
  "rt (State_leave s) = rt s" "correct (State_leave s) = correct s"
  "keys (State_leave s) = keys s" "correct_resp (State_leave s) = correct_resp s"
  "base_time (State_leave s) = base_time s" "base_time_src (State_leave s) = base_time_src s"
  "wait_duration (State_leave s) = wait_duration s" "wait_until (State_leave s) = wait_until s"
  "state_time (State_leave s) = state_time s" "ident (State_leave s) = ident s"
  "\<not> active (State_leave s)" "no_response (State_leave s) = no_response s"
  by (simp_all add: State_leave_def KeyPress_leave_def no_response_def)

subsection \<open>The dispatcher's list\<close>

lemma remove1_single: "count_list xs x \<le> 1 \<Longrightarrow> x \<notin> set (remove1 x xs)"
  by (induction xs) (auto simp: count_list_0_iff split: if_splits)

lemma count_list_snoc: "count_list (xs @ [y]) x = count_list xs x + (if x = y then 1 else 0)"
  by (induction xs) auto

subsection \<open>The invariant of an activation\<close>

lemma inv_enter: "unsubscribed s \<Longrightarrow> lifecycle_inv (State_enter t s)"
  by (auto simp: unsubscribed_def lifecycle_inv_def State_enter_def KeyPress_enter_def
      registered_def self_key_callback_def no_response_def count_list_0_iff)

lemma inv_leave: "lifecycle_inv s \<Longrightarrow> lifecycle_inv (State_leave s)"
  by (auto simp: lifecycle_inv_def State_leave_def KeyPress_leave_def remove_callback_def
      registered_def self_key_callback_def no_response_def remove1_single count_list_0_iff)

lemma inv_subscribe_fill:
  "lifecycle_inv s \<Longrightarrow> active s \<Longrightarrow>
     lifecycle_inv (fill_base_time (subscribe s)) \<and> waiting (fill_base_time (subscribe s))"
  by (auto simp: lifecycle_inv_def subscribe_def fill_base_time_def add_callback_def val_def
      Let_def registered_def self_key_callback_def no_response_def count_list_snoc
      count_list_0_iff)

lemma exit_test_cases:
  "base_time s \<noteq> None \<Longrightarrow> exit_test now s = Inr s \<or> exit_test now s = Inr (State_leave s)"
  by (auto simp: exit_test_def val_def split: option.splits)

lemma inv_callback:
  assumes "lifecycle_inv s" and "active s"
  shows "\<exists>s'. KeyPress_callback now s = Inr s' \<and> lifecycle_inv s'"
proof -
  let ?m = "fill_base_time (subscribe s)"
  have m: "lifecycle_inv ?m" "waiting ?m"
    using inv_subscribe_fill [OF assms] by auto
  then have "base_time ?m \<noteq> None"
    by (simp add: lifecycle_inv_def)
  from exit_test_cases [OF this, of now] m(1) show ?thesis
    unfolding KeyPress_callback_def by (auto intro: inv_leave)
qed

lemma inv_key_callback:
  assumes "lifecycle_inv s" and "registered s"
  shows "\<exists>s'. KeyPress_key_callback ev s = Inr s' \<and> lifecycle_inv s'"
proof (cases "qualifies (keys s) ev")
  case False
  then show ?thesis
    using assms(1) by (simp add: key_callback_ignored)
next
  case True
  from assms obtain b where b: "base_time s = Some b"
    by (auto simp: lifecycle_inv_def)
  have "lifecycle_inv (State_leave
               (s\<lparr> pressed := str_upper (snd (keycode ev)),
                   press_time := Some (event_time ev),
                   rt := Some (time (event_time ev) - b),
                   correct := (correct s \<or>
                               PStr (str_upper (snd (keycode ev))) \<in> set (correct_resp s)) \<rparr>))"
    using assms
    by (auto simp: lifecycle_inv_def State_leave_def KeyPress_leave_def remove_callback_def
        registered_def self_key_callback_def remove1_single count_list_0_iff)
  then show ?thesis
    by (simp add: key_callback_accepted [OF True b])
qed

lemma inv_step: "lifecycle_inv s \<Longrightarrow> \<exists>s'. step i s = Inr s' \<and> lifecycle_inv s'"
  by (cases i) (auto simp: inv_callback inv_key_callback inv_leave)

lemma inv_run: "lifecycle_inv s \<Longrightarrow> \<exists>s'. run ins s = Inr s' \<and> lifecycle_inv s'"
proof (induction ins arbitrary: s)
  case Nil
  then show ?case by simp
next
  case (Cons i ins)
  from inv_step [OF Cons.prems, of i] obtain s1
    where "step i s = Inr s1" and "lifecycle_inv s1" by blast
  with Cons.IH [of s1] show ?case by auto
qed

lemma run_append:
  "run (xs @ ys) s = (case run xs s of Inl e \<Rightarrow> Inl e | Inr s' \<Rightarrow> run ys s')"
  by (induction xs arbitrary: s) (auto split: sum.splits)

lemmas example_defs = example_keypress_def example_event_def KeyPress_init_def State_enter_def
  KeyPress_enter_def KeyPress_callback_def subscribe_def fill_base_time_def exit_test_def val_def
  registered_def self_key_callback_def add_callback_def State_leave_def KeyPress_leave_def
  remove_callback_def Let_def qualifies_def unsubscribed_def

section \<open>The specified properties\<close>

text \<open>
  C1. A key event whose uppercased key name is in the accepted keys, or whose accepted
  keys contain None, reaches a state whose base time is the number \<open>b\<close>: the callback
  returns, and it has recorded the uppercased name as \<open>pressed\<close>, the event's timestamp
  as \<open>press_time\<close> and the event's time minus \<open>b\<close> as \<open>rt\<close>. It assigns True to
  \<open>correct\<close> exactly when the recorded key is in the correct responses, and leaves
  \<open>correct\<close> as it was otherwise; \<open>_enter\<close> has set it to False.
\<close>

theorem KeyPress_key_callback_records:
  assumes "qualifies (keys s) ev" and "base_time s = Some b"
  shows "\<exists>s'. KeyPress_key_callback ev s = Inr s' \<and>
           pressed s' = str_upper (snd (keycode ev)) \<and>
           press_time s' = Some (event_time ev) \<and>
           rt s' = Some (time (event_time ev) - b) \<and>
           correct s' = (correct s \<or> PStr (pressed s') \<in> set (correct_resp s))"
  by (simp add: key_callback_accepted [OF assms] State_leave_fields)

text \<open>
  The scenario of the spec: accepted keys J and K, correct response K, entered at time
  10 and polled once; the key \<open>k\<close> arrives 0.42 seconds after the entry.
\<close>

theorem KeyPress_key_callback_records_witness:
  "qualifies (keys (fill_base_time (subscribe (State_enter 10 example_keypress))))
     (example_event ''k'' 10.42) \<and>
   base_time (fill_base_time (subscribe (State_enter 10 example_keypress))) = Some 10 \<and>
   (\<exists>s'. KeyPress_key_callback (example_event ''k'' 10.42)
            (fill_base_time (subscribe (State_enter 10 example_keypress))) = Inr s' \<and>
          pressed s' = ''K'' \<and> press_time s' = Some \<lparr> time = 10.42 \<rparr> \<and>
          rt s' = Some 0.42 \<and> correct s')"
proof -
  let ?s = "fill_base_time (subscribe (State_enter 10 example_keypress))"
  let ?ev = "example_event ''k'' 10.42"
  have q: "qualifies (keys ?s) ?ev"
    by (simp add: example_defs upper_examples)
  have b: "base_time ?s = Some 10"
    by (simp add: example_defs)
  have c: "correct_resp ?s = [PStr ''K'']" "\<not> correct ?s"
    by (simp_all add: example_defs)
  have e: "str_upper (snd (keycode ?ev)) = ''K''" "event_time ?ev = \<lparr> time = 10.42 \<rparr>"
    by (simp_all add: example_event_def upper_examples)
  from KeyPress_key_callback_records [OF q b] q b c e show ?thesis
    by auto
qed

text \<open>
  C8. A key event whose uppercased key name is not in the accepted keys, which do not
  contain None, is ignored: the callback returns the state as it was, so the response
  fields are unchanged, \<open>leave\<close> has not been called and the state is as active and as
  subscribed as before. The same holds when the dispatcher delivers the event.
\<close>

theorem KeyPress_key_callback_ignores:
  "\<not> qualifies (keys s) ev \<Longrightarrow>
     KeyPress_key_callback ev s = Inr s \<and> step (KeyDown ev) s = Inr s"
  by (simp add: key_callback_ignored)

theorem KeyPress_key_callback_ignores_witness:
  "\<not> qualifies (keys (fill_base_time (subscribe (State_enter 10 example_keypress))))
       (example_event ''q'' 10.42) \<and>
   KeyPress_key_callback (example_event ''q'' 10.42)
     (fill_base_time (subscribe (State_enter 10 example_keypress))) =
   Inr (fill_base_time (subscribe (State_enter 10 example_keypress))) \<and>
   active (fill_base_time (subscribe (State_enter 10 example_keypress))) \<and>
   registered (fill_base_time (subscribe (State_enter 10 example_keypress)))"
proof -
  let ?s = "fill_base_time (subscribe (State_enter 10 example_keypress))"
  let ?ev = "example_event ''q'' 10.42"
  have q: "\<not> qualifies (keys ?s) ?ev"
    by (simp add: example_defs upper_examples)
  have a: "active ?s" "registered ?s"
    by (simp_all add: example_defs)
  from KeyPress_key_callback_ignores [OF q] q a show ?thesis
    by simp
qed

subsection \<open>An activation without a qualifying key event\<close>

lemma quiet_enter: "quiet_inv t s0 (State_enter t s0)"
  by (simp add: quiet_inv_def State_enter_def KeyPress_enter_def no_response_def)

lemma quiet_leave: "quiet_inv t s0 s \<Longrightarrow> quiet_inv t s0 (State_leave s)"
  by (simp add: quiet_inv_def State_leave_fields)

lemma quiet_middle:
  assumes "quiet_inv t s0 s"
  shows "quiet_inv t s0 (fill_base_time (subscribe s)) \<and>
         base_time (fill_base_time (subscribe s)) = Some (reference_time t s0)"
  using assms
  by (auto simp: quiet_inv_def subscribe_def fill_base_time_def val_def Let_def
      no_response_def reference_time_def split: option.splits)

lemma exit_test_result:
  assumes "base_time m = Some b"
  shows "exit_test now m =
         Inr (if (\<exists>d. wait_duration m = Some d \<and> b + d \<le> now) \<or> truthy (wait_until m)
              then State_leave m else m)"
  using assms
  by (auto simp: exit_test_def val_def split: option.splits)

lemma quiet_callback:
  assumes "quiet_inv t s0 s"
  shows "\<exists>s'. KeyPress_callback now s = Inr s' \<and> quiet_inv t s0 s' \<and>
              ((\<exists>d. wait_duration s0 = Some d \<and> reference_time t s0 + d \<le> now)
                 \<longrightarrow> \<not> active s')"
proof -
  let ?m = "fill_base_time (subscribe s)"
  have m: "quiet_inv t s0 ?m" "base_time ?m = Some (reference_time t s0)"
    using quiet_middle [OF assms] by auto
  from m(1) have w: "wait_duration ?m = wait_duration s0"
    by (simp add: quiet_inv_def)
  from m(1) show ?thesis
    by (simp add: KeyPress_callback_def exit_test_result [OF m(2)] w quiet_leave
        State_leave_fields)
qed

lemma quiet_step:
  assumes "quiet_inv t s0 s" and "\<forall>ev. i = KeyDown ev \<longrightarrow> \<not> qualifies (keys s0) ev"
  shows "\<exists>s'. step i s = Inr s' \<and> quiet_inv t s0 s'"
proof (cases i)
  case (Tick now)
  then show ?thesis using quiet_callback [OF assms(1), of now] assms(1) by auto
next
  case (KeyDown ev)
  with assms have "\<not> qualifies (keys s) ev" by (simp add: quiet_inv_def)
  then show ?thesis using KeyDown assms(1) by (simp add: key_callback_ignored)
next
  case ForceLeave
  then show ?thesis using assms(1) by (simp add: quiet_leave)
qed

lemma quiet_run:
  assumes "quiet_inv t s0 s" and "\<forall>ev. KeyDown ev \<in> set ins \<longrightarrow> \<not> qualifies (keys s0) ev"
  shows "\<exists>s'. run ins s = Inr s' \<and> quiet_inv t s0 s'"
  using assms
proof (induction ins arbitrary: s)
  case Nil
  then show ?case by simp
next
  case (Cons i ins)
  from Cons.prems have "\<forall>ev. i = KeyDown ev \<longrightarrow> \<not> qualifies (keys s0) ev" by auto
  from quiet_step [OF Cons.prems(1) this] obtain s1
    where s1: "step i s = Inr s1" "quiet_inv t s0 s1" by blast
  from Cons.prems(2) have "\<forall>ev. KeyDown ev \<in> set ins \<longrightarrow> \<not> qualifies (keys s0) ev" by auto
  from Cons.IH [OF s1(2) this] s1(1) show ?case by auto
qed

text \<open>
  C2, as the claim states it, fails. A state with the accepted keys J and K, the
  supplied base time 5 and a duration of one second is entered at time 0. No key
  event arrives before the start time plus the duration has passed, and the tick at
  the clock reading 2 leaves the state active, since line 155 counts the deadline from
  \<open>base_time\<close>; the key \<open>k\<close> at time 3 is then recorded, and the state exits with
  \<open>pressed\<close> K, \<open>rt\<close> -2 and \<open>correct\<close> True. A state with no duration and the until
  value 0 is still active after the ticks at 5 and 50: line 157 tests the truth of the
  until value and does not compare it with the clock.
\<close>

theorem KeyPress_late_key_counterexample:
  "state_time (State_enter 0 (KeyPress_init 1 (\<lambda>kind. []) (PList [PStr ''J'', PStr ''K''])
       (PStr ''K'') (Some 5) PNone (Some 1))) = Some 0 \<and>
   wait_duration (State_enter 0 (KeyPress_init 1 (\<lambda>kind. []) (PList [PStr ''J'', PStr ''K''])
       (PStr ''K'') (Some 5) PNone (Some 1))) = Some 1 \<and>
   (0::real) + 1 \<le> 2 \<and>
   (\<exists>s. run [Tick 2] (State_enter 0 (KeyPress_init 1 (\<lambda>kind. [])
            (PList [PStr ''J'', PStr ''K'']) (PStr ''K'') (Some 5) PNone (Some 1))) = Inr s \<and>
        active s \<and> pressed s = []) \<and>
   (\<exists>s. run [Tick 2, KeyDown (example_event ''k'' 3)]
           (State_enter 0 (KeyPress_init 1 (\<lambda>kind. []) (PList [PStr ''J'', PStr ''K''])
              (PStr ''K'') (Some 5) PNone (Some 1))) = Inr s \<and>
        \<not> active s \<and> pressed s = ''K'' \<and> press_time s = Some \<lparr> time = 3 \<rparr> \<and>
        rt s = Some (- 2) \<and> correct s) \<and>
   wait_until (State_enter 0 (KeyPress_init 1 (\<lambda>kind. []) PNone PNone None (PNum 0)
       (Some (- 1)))) = PNum 0 \<and>
   (0::real) \<le> 5 \<and>
   (\<exists>s. run [Tick 5, Tick 50] (State_enter 0 (KeyPress_init 1 (\<lambda>kind. []) PNone PNone None
            (PNum 0) (Some (- 1)))) = Inr s \<and>
        active s)"
  by (simp add: example_defs KeyPress_key_callback_def upper_examples)

text \<open>
  C2, amended. An activation entered at time \<open>t\<close> of a state with the duration \<open>d\<close>
  receives ticks, key events and forced leaves, and none of the key events qualifies.
  At a tick whose clock reading is at least the reference time plus \<open>d\<close>, where the
  reference time is the supplied base time, or \<open>t\<close> when none was supplied, the state
  has exited, and its response fields are the defaults: \<open>pressed\<close> is the empty
  string, \<open>press_time\<close> is None, \<open>correct\<close> is False and \<open>rt\<close> is None. No step of the
  activation raises. Nothing is said of the until value.
\<close>

theorem KeyPress_no_response_defaults:
  assumes "\<forall>ev. KeyDown ev \<in> set ins \<longrightarrow> \<not> qualifies (keys s0) ev"
      and "wait_duration s0 = Some d" and "reference_time t s0 + d \<le> now"
  shows "\<exists>s. run (ins @ [Tick now]) (State_enter t s0) = Inr s \<and> \<not> active s \<and>
             pressed s = [] \<and> press_time s = None \<and> \<not> correct s \<and> rt s = None"
proof -
  from quiet_run [OF quiet_enter assms(1)] obtain s1
    where s1: "run ins (State_enter t s0) = Inr s1" "quiet_inv t s0 s1" by blast
  show ?thesis
  proof (cases "active s1")
    case True
    from quiet_callback [OF s1(2), of now] assms(2,3) obtain s2
      where "KeyPress_callback now s1 = Inr s2" "quiet_inv t s0 s2" "\<not> active s2" by blast
    with s1(1) True show ?thesis
      by (simp add: run_append quiet_inv_def no_response_def)
  next
    case False
    with s1 show ?thesis
      by (simp add: run_append quiet_inv_def no_response_def)
  qed
qed

theorem KeyPress_no_response_defaults_witness:
  "\<not> qualifies (keys example_keypress) (example_event ''q'' 11) \<and>
   wait_duration example_keypress = Some 2 \<and>
   reference_time 10 example_keypress + 2 \<le> 12 \<and>
   (\<exists>s. run ([Tick 10.5, KeyDown (example_event ''q'' 11), Tick 11.5] @ [Tick 12])
           (State_enter 10 example_keypress) = Inr s \<and> \<not> active s \<and>
        pressed s = [] \<and> press_time s = None \<and> \<not> correct s \<and> rt s = None)"
proof -
  have q: "\<forall>ev. KeyDown ev \<in> set [Tick 10.5, KeyDown (example_event ''q'' 11), Tick 11.5] \<longrightarrow>
         \<not> qualifies (keys example_keypress) ev"
    by (simp add: example_defs upper_examples)
  have w: "wait_duration example_keypress = Some 2"
    by (simp add: example_defs)
  have b: "reference_time 10 example_keypress + 2 \<le> 12"
    by (simp add: reference_time_def example_defs)
  have n: "\<not> qualifies (keys example_keypress) (example_event ''q'' 11)"
    by (simp add: example_defs upper_examples)
  from KeyPress_no_response_defaults [OF q w b] n w b show ?thesis
    by blast
qed

subsection \<open>The exit test of a poll tick\<close>

text \<open>
  C3, as the claim states it, fails in both parts. A state with the supplied base time
  5, entered at time 0 with a duration of one second, is still active after the tick
  at the clock reading 2, although the start time plus the duration has passed: the
  deadline of line 155 is counted from \<open>base_time\<close>. A state with no duration and the
  until value 10 has left after the tick at the clock reading 1: line 157 tests the
  truth of the until value and does not compare it with the clock.
\<close>

theorem KeyPress_callback_deadline_counterexample:
  "state_time (State_enter 0 (KeyPress_init 1 (\<lambda>kind. []) PNone PNone (Some 5) PNone (Some 1))) = Some 0 \<and>
   wait_duration (State_enter 0 (KeyPress_init 1 (\<lambda>kind. []) PNone PNone (Some 5) PNone (Some 1))) = Some 1 \<and>
   (0::real) + 1 \<le> 2 \<and>
   (\<exists>s'. KeyPress_callback 2
           (State_enter 0 (KeyPress_init 1 (\<lambda>kind. []) PNone PNone (Some 5) PNone (Some 1))) = Inr s' \<and>
         active s') \<and>
   wait_until (State_enter 0 (KeyPress_init 1 (\<lambda>kind. []) PNone PNone None (PNum 10) (Some (- 1)))) = PNum 10 \<and>
   (1::real) < 10 \<and>
   (\<exists>s'. KeyPress_callback 1
           (State_enter 0 (KeyPress_init 1 (\<lambda>kind. []) PNone PNone None (PNum 10) (Some (- 1)))) = Inr s' \<and>
         \<not> active s')"
  by (simp add: example_defs)

text \<open>
  C3, amended. A poll tick at the clock reading \<open>now\<close> reaches an active state that
  was entered at time \<open>t\<close>, whose base time is not yet computed or is the reference
  time (the supplied base time, or \<open>t\<close> when none was supplied), and whose until value
  is not true. The tick returns, and it has forced the state to leave exactly when a
  duration \<open>d\<close> is configured and \<open>now\<close> is at least the reference time plus \<open>d\<close>;
  otherwise the state is still active. Nothing is said of a state whose until value is
  true.
\<close>

theorem KeyPress_callback_exit_rule:
  assumes "active s" and "state_time s = Some t"
      and "base_time s = None \<or> base_time s = Some (reference_time t s)"
      and "\<not> truthy (wait_until s)"
  shows "\<exists>s'. KeyPress_callback now s = Inr s' \<and>
           (active s' \<longleftrightarrow> \<not> (\<exists>d. wait_duration s = Some d \<and> reference_time t s + d \<le> now))"
proof -
  let ?m = "fill_base_time (subscribe s)"
  have m: "base_time ?m = Some (reference_time t s)" "wait_duration ?m = wait_duration s"
    "wait_until ?m = wait_until s" "active ?m"
    using assms
    by (auto simp: subscribe_def fill_base_time_def val_def Let_def reference_time_def
        split: option.splits)
  from assms(4) m(3) have "\<not> truthy (wait_until ?m)"
    by simp
  with m(2,4) show ?thesis
    by (simp add: KeyPress_callback_def exit_test_result [OF m(1)] State_leave_fields)
qed

theorem KeyPress_callback_exit_rule_witness:
  "active (State_enter 0 (KeyPress_init 1 (\<lambda>kind. []) PNone PNone (Some 5) PNone (Some 1))) \<and>
   reference_time 0 (State_enter 0 (KeyPress_init 1 (\<lambda>kind. []) PNone PNone (Some 5) PNone (Some 1))) = 5 \<and>
   (\<exists>s'. KeyPress_callback 2
           (State_enter 0 (KeyPress_init 1 (\<lambda>kind. []) PNone PNone (Some 5) PNone (Some 1))) = Inr s' \<and>
         active s') \<and>
   (\<exists>s'. KeyPress_callback 6
           (State_enter 0 (KeyPress_init 1 (\<lambda>kind. []) PNone PNone (Some 5) PNone (Some 1))) = Inr s' \<and>
         \<not> active s')"
proof -
  let ?s = "State_enter 0 (KeyPress_init 1 (\<lambda>kind. []) PNone PNone (Some 5) PNone (Some 1))"
  have a: "active ?s" "state_time ?s = Some 0"
    "base_time ?s = None \<or> base_time ?s = Some (reference_time 0 ?s)"
    "\<not> truthy (wait_until ?s)"
    by (simp_all add: example_defs)
  have r: "reference_time 0 ?s = 5" "wait_duration ?s = Some 1"
    by (simp_all add: reference_time_def example_defs)
  from KeyPress_callback_exit_rule [OF a, of 2] KeyPress_callback_exit_rule [OF a, of 6] a r
  show ?thesis by simp
qed

text \<open>
  C7. A poll tick is the exit test applied to the state that subscribing and filling
  the base time have produced. That state is waiting, whatever the state at the
  beginning of the tick was, and its key callback is registered, provided that a state
  that was already waiting at the beginning was registered.
\<close>

theorem KeyPress_callback_subscribes_first:
  "KeyPress_callback now s = exit_test now (fill_base_time (subscribe s)) \<and>
   waiting (fill_base_time (subscribe s)) \<and>
   (registered s \<or> \<not> waiting s \<longrightarrow> registered (fill_base_time (subscribe s)))"
  by (auto simp: KeyPress_callback_def subscribe_def fill_base_time_def val_def Let_def
      registered_def self_key_callback_def add_callback_def)

theorem KeyPress_callback_subscribes_first_witness:
  "\<not> waiting (State_enter 10 example_keypress) \<and>
   \<not> registered (State_enter 10 example_keypress) \<and>
   waiting (fill_base_time (subscribe (State_enter 10 example_keypress))) \<and>
   registered (fill_base_time (subscribe (State_enter 10 example_keypress)))"
proof -
  let ?s = "State_enter 10 example_keypress"
  have a: "\<not> waiting ?s" "\<not> registered ?s"
    by (simp_all add: example_defs)
  from KeyPress_callback_subscribes_first [of 11 ?s] a show ?thesis
    by simp
qed

subsection \<open>The constructor\<close>

text \<open>
  C9. \<open>__init__\<close> turns a \<open>keys\<close> argument that is not a list into the list of that one
  value, and likewise a \<open>correct_resp\<close> argument. With \<open>keys=None\<close> the accepted keys are
  \<open>[None]\<close>; then every key event qualifies, and the callback on a state with these
  keys and a base time records the key of any event.
\<close>

theorem KeyPress_init_wraps:
  "(\<not> is_list k \<longrightarrow> keys (KeyPress_init i d k c b u dur) = [k]) \<and>
   (\<not> is_list c \<longrightarrow> correct_resp (KeyPress_init i d k c b u dur) = [c]) \<and>
   keys (KeyPress_init i d PNone c b u dur) = [PNone] \<and>
   qualifies (keys (KeyPress_init i d PNone c b u dur)) ev \<and>
   (keys s = keys (KeyPress_init i d PNone c b u dur) \<and> base_time s = Some bt \<longrightarrow>
      (\<exists>s'. KeyPress_key_callback ev s = Inr s' \<and> pressed s' = str_upper (snd (keycode ev))))"
proof -
  have 1: "\<not> is_list v \<Longrightarrow> as_list v = [v]" for v
    by (cases v) simp_all
  have 2: "qualifies [PNone] ev"
    by (simp add: qualifies_def)
  have 3: "keys s = [PNone] \<Longrightarrow> base_time s = Some bt \<Longrightarrow>
      \<exists>s'. KeyPress_key_callback ev s = Inr s' \<and> pressed s' = str_upper (snd (keycode ev))"
    using key_callback_accepted [of s ev bt] 2 by (simp add: State_leave_fields)
  show ?thesis
    using 1 2 3 by (simp add: KeyPress_init_def)
qed

theorem KeyPress_init_wraps_witness:
  "\<not> is_list (PStr ''K'') \<and> \<not> is_list PNone \<and>
   keys (KeyPress_init 1 (\<lambda>kind. []) (PStr ''K'') PNone None PNone (Some (- 1))) = [PStr ''K''] \<and>
   correct_resp (KeyPress_init 1 (\<lambda>kind. []) (PStr ''K'') PNone None PNone (Some (- 1))) = [PNone] \<and>
   keys (KeyPress_init 1 (\<lambda>kind. []) (PList [PStr ''J'', PStr ''K'']) PNone None PNone (Some (- 1)))
     = [PStr ''J'', PStr ''K'']"
proof -
  have a: "\<not> is_list (PStr ''K'')" "\<not> is_list PNone"
    by simp_all
  have l: "keys (KeyPress_init 1 (\<lambda>kind. []) (PList [PStr ''J'', PStr ''K'']) PNone None PNone (Some (- 1)))
     = [PStr ''J'', PStr ''K'']"
    by (simp add: KeyPress_init_def)
  from KeyPress_init_wraps [of "PStr ''K''" 1 "\<lambda>kind. []" PNone None PNone "Some (- 1)"] a l
  show ?thesis by simp
qed

subsection \<open>Matching on the uppercased key name\<close>

lemma lower_entry_neq: "lower_entry v \<Longrightarrow> v \<noteq> PStr (str_upper x)"
  using str_upper_no_lower [of x] by (auto simp: lower_entry_def split: pyval.splits)

text \<open>
  C10. The test of line 122 and the test of line 136 compare the uppercased key name
  with the entries. An entry with a lowercase letter is neither None nor equal to the
  uppercased name of any event, so that removing such entries from the accepted keys
  changes the matching of no event; when every accepted key is such an entry the
  callback ignores every event, and when every correct response is such an entry the
  callback never changes \<open>correct\<close>. The \<open>pressed\<close> value of an accepted event has no
  lowercase letter and is its own uppercasing.
\<close>

theorem KeyPress_matching_uppercase:
  "(lower_entry v \<longrightarrow> v \<noteq> PNone \<and> v \<noteq> PStr (str_upper (snd (keycode ev)))) \<and>
   qualifies ks ev = qualifies (filter (\<lambda>v. \<not> lower_entry v) ks) ev \<and>
   ((\<forall>v \<in> set (keys s). lower_entry v) \<longrightarrow> KeyPress_key_callback ev s = Inr s) \<and>
   ((\<forall>v \<in> set (correct_resp s). lower_entry v) \<and> KeyPress_key_callback ev s = Inr s'
      \<longrightarrow> correct s' = correct s) \<and>
   (qualifies (keys s) ev \<and> KeyPress_key_callback ev s = Inr s'
      \<longrightarrow> \<not> has_lower (pressed s') \<and> str_upper (pressed s') = pressed s')"
proof -
  have a: "lower_entry v \<longrightarrow> v \<noteq> PNone \<and> v \<noteq> PStr (str_upper (snd (keycode ev)))"
    using lower_entry_neq [of v] by (auto simp: lower_entry_def)
  have b: "qualifies ks ev = qualifies (filter (\<lambda>v. \<not> lower_entry v) ks) ev"
    by (auto simp: qualifies_def lower_entry_def str_upper_no_lower)
  have c: "KeyPress_key_callback ev s = Inr s" if "\<forall>v \<in> set (keys s). lower_entry v"
  proof -
    from that have "\<not> qualifies (keys s) ev"
      by (auto simp: qualifies_def lower_entry_def str_upper_no_lower)
    then show ?thesis by (rule key_callback_ignored)
  qed
  have d: "correct s' = correct s"
    if "\<forall>v \<in> set (correct_resp s). lower_entry v" "KeyPress_key_callback ev s = Inr s'"
  proof (cases "qualifies (keys s) ev")
    case False
    with that(2) show ?thesis by (simp add: key_callback_ignored)
  next
    case True
    from that(1) have n: "PStr (str_upper (snd (keycode ev))) \<notin> set (correct_resp s)"
      using lower_entry_neq by blast
    show ?thesis
    proof (cases "base_time s")
      case None
      with True that(2) show ?thesis by (simp add: key_callback_no_base_time)
    next
      case (Some bt)
      from key_callback_accepted [OF True Some] that(2) n show ?thesis
        by (auto simp: State_leave_fields)
    qed
  qed
  have e: "\<not> has_lower (pressed s') \<and> str_upper (pressed s') = pressed s'"
    if "qualifies (keys s) ev" "KeyPress_key_callback ev s = Inr s'"
  proof (cases "base_time s")
    case None
    with that show ?thesis by (simp add: key_callback_no_base_time)
  next
    case (Some bt)
    from key_callback_accepted [OF that(1) Some] that(2)
    have "pressed s' = str_upper (snd (keycode ev))"
      by (auto simp: State_leave_fields)
    then show ?thesis by (simp add: str_upper_no_lower str_upper_idem)
  qed
  from a b c d e show ?thesis by blast
qed

theorem KeyPress_matching_uppercase_witness:
  "lower_entry (PStr ''k'') \<and>
   PStr ''k'' \<noteq> PStr (str_upper (snd (keycode (example_event ''k'' 11)))) \<and>
   qualifies [PStr ''k'', PStr ''K''] (example_event ''k'' 11) \<and>
   \<not> qualifies [PStr ''k''] (example_event ''k'' 11) \<and>
   keys (fill_base_time (subscribe (State_enter 10
        (KeyPress_init 1 (\<lambda>kind. []) (PStr ''k'') (PStr ''k'') None PNone (Some 2))))) =
   [PStr ''k''] \<and>
   KeyPress_key_callback (example_event ''k'' 11)
     (fill_base_time (subscribe (State_enter 10
        (KeyPress_init 1 (\<lambda>kind. []) (PStr ''k'') (PStr ''k'') None PNone (Some 2))))) =
   Inr (fill_base_time (subscribe (State_enter 10
        (KeyPress_init 1 (\<lambda>kind. []) (PStr ''k'') (PStr ''k'') None PNone (Some 2)))))"
proof -
  let ?s = "fill_base_time (subscribe (State_enter 10
        (KeyPress_init 1 (\<lambda>kind. []) (PStr ''k'') (PStr ''k'') None PNone (Some 2))))"
  let ?ev = "example_event ''k'' 11"
  have l: "lower_entry (PStr ''k'')"
    by (simp add: lower_entry_def has_lower_def is_lower_def)
  have k: "keys ?s = [PStr ''k'']"
    by (simp add: example_defs)
  have f: "filter (\<lambda>v. \<not> lower_entry v) [PStr ''k'', PStr ''K''] = [PStr ''K'']"
    by (simp add: lower_entry_def has_lower_def is_lower_def)
  have f2: "filter (\<lambda>v. \<not> lower_entry v) [PStr ''k''] = []"
    by (simp add: lower_entry_def has_lower_def is_lower_def)
  have q: "qualifies [PStr ''K''] ?ev" "\<not> qualifies [] ?ev"
    by (simp_all add: qualifies_def example_event_def upper_examples)
  from KeyPress_matching_uppercase [of "PStr ''k''" ?ev "[PStr ''k'', PStr ''K'']" ?s ?s]
    KeyPress_matching_uppercase [of "PStr ''k''" ?ev "[PStr ''k'']" ?s ?s]
    l k f f2 q
  show ?thesis by simp
qed

subsection \<open>Subscription during an activation\<close>

lemma inv_inactive: "lifecycle_inv s \<Longrightarrow> \<not> active s \<Longrightarrow> unsubscribed s"
  by (auto simp: lifecycle_inv_def unsubscribed_def)

lemma inv_activation:
  assumes "unsubscribed s0"
  shows "\<exists>s. run ins (State_enter t s0) = Inr s \<and> lifecycle_inv s"
  using inv_run [OF inv_enter [OF assms]] .

lemma unregistered_deaf: "\<not> registered s \<Longrightarrow> run (map KeyDown evs) s = Inr s"
  by (induction evs) simp_all

text \<open>
  C4. An activation of a state that was not subscribed before has received ticks, key
  events and forced leaves and is still subscribed, so that no key event has been
  accepted yet. The dispatcher delivers a key event that qualifies: the callback
  returns with the key recorded, the state is no longer active, not waiting and its
  callback is no longer registered. Any key events dispatched after that leave the
  state, and so every response field, as it is.
\<close>

theorem KeyPress_first_accept_finishes:
  assumes "unsubscribed s0" and "run ins (State_enter t s0) = Inr s"
      and "registered s" and "qualifies (keys s) ev"
  shows "\<exists>s'. step (KeyDown ev) s = Inr s' \<and>
           pressed s' = str_upper (snd (keycode ev)) \<and>
           \<not> active s' \<and> \<not> registered s' \<and> \<not> waiting s' \<and>
           (\<forall>evs. run (map KeyDown evs) s' = Inr s')"
proof -
  from inv_activation [OF assms(1), of ins t] assms(2) have inv: "lifecycle_inv s"
    by simp
  with assms(3) obtain b where b: "base_time s = Some b"
    by (auto simp: lifecycle_inv_def)
  let ?s' = "State_leave
               (s\<lparr> pressed := str_upper (snd (keycode ev)),
                   press_time := Some (event_time ev),
                   rt := Some (time (event_time ev) - b),
                   correct := (correct s \<or>
                               PStr (str_upper (snd (keycode ev))) \<in> set (correct_resp s)) \<rparr>)"
  have k: "KeyPress_key_callback ev s = Inr ?s'"
    by (rule key_callback_accepted [OF assms(4) b])
  from inv_key_callback [OF inv assms(3), of ev] k have "lifecycle_inv ?s'"
    by simp
  moreover have na: "\<not> active ?s'"
    by (simp add: State_leave_fields)
  ultimately have u: "unsubscribed ?s'"
    by (rule inv_inactive)
  then have "\<forall>evs. run (map KeyDown evs) ?s' = Inr ?s'"
    by (simp add: unsubscribed_def unregistered_deaf)
  with k u na assms(3) show ?thesis
    by (simp add: unsubscribed_def State_leave_fields)
qed

theorem KeyPress_first_accept_finishes_witness:
  "unsubscribed example_keypress \<and>
   (\<exists>s. run [Tick 10.1] (State_enter 10 example_keypress) = Inr s \<and> registered s \<and>
        qualifies (keys s) (example_event ''k'' 10.42) \<and>
        (\<exists>s'. step (KeyDown (example_event ''k'' 10.42)) s = Inr s' \<and> pressed s' = ''K'' \<and>
              \<not> active s' \<and> \<not> registered s' \<and>
              run (map KeyDown [example_event ''j'' 10.5]) s' = Inr s'))"
proof -
  let ?s = "fill_base_time (subscribe (State_enter 10 example_keypress))"
  let ?ev = "example_event ''k'' 10.42"
  have u: "unsubscribed example_keypress"
    by (simp add: example_defs)
  have r: "run [Tick 10.1] (State_enter 10 example_keypress) = Inr ?s"
    by (simp add: example_defs)
  have g: "registered ?s"
    by (simp add: example_defs)
  have q: "qualifies (keys ?s) ?ev"
    by (simp add: example_defs upper_examples)
  have e: "str_upper (snd (keycode ?ev)) = ''K''"
    by (simp add: example_event_def upper_examples)
  from KeyPress_first_accept_finishes [OF u r g q] u r g q e show ?thesis
    by auto
qed

lemma ref_enter: "reference_inv t s0 (State_enter t s0)"
  by (simp add: reference_inv_def State_enter_def KeyPress_enter_def)

lemma ref_leave: "reference_inv t s0 s \<Longrightarrow> reference_inv t s0 (State_leave s)"
  by (simp add: reference_inv_def State_leave_fields)

lemma ref_middle:
  assumes "reference_inv t s0 s"
  shows "reference_inv t s0 (fill_base_time (subscribe s)) \<and>
         base_time (fill_base_time (subscribe s)) = Some (reference_time t s0)"
  using assms
  by (auto simp: reference_inv_def subscribe_def fill_base_time_def val_def Let_def
      reference_time_def split: option.splits)

lemma ref_callback:
  assumes "reference_inv t s0 s" and "KeyPress_callback now s = Inr s'"
  shows "reference_inv t s0 s'"
proof -
  let ?m = "fill_base_time (subscribe s)"
  have m: "reference_inv t s0 ?m" "base_time ?m = Some (reference_time t s0)"
    using ref_middle [OF assms(1)] by auto
  have "exit_test now ?m = Inr ?m \<or> exit_test now ?m = Inr (State_leave ?m)"
    by (rule exit_test_cases) (simp add: m(2))
  with assms(2) have "s' = ?m \<or> s' = State_leave ?m"
    unfolding KeyPress_callback_def by auto
  with m(1) ref_leave [OF m(1)] show ?thesis
    by blast
qed

lemma ref_key_callback:
  assumes "reference_inv t s0 s" and "KeyPress_key_callback ev s = Inr s'"
  shows "reference_inv t s0 s'"
proof (cases "qualifies (keys s) ev")
  case False
  with assms show ?thesis by (simp add: key_callback_ignored)
next
  case True
  show ?thesis
  proof (cases "base_time s")
    case None
    with True assms(2) show ?thesis by (simp add: key_callback_no_base_time)
  next
    case (Some b)
    from key_callback_accepted [OF True Some] assms show ?thesis
      by (auto simp: reference_inv_def State_leave_fields)
  qed
qed

lemma ref_step:
  assumes "reference_inv t s0 s" and "step i s = Inr s'"
  shows "reference_inv t s0 s'"
proof (cases i)
  case (Tick now)
  show ?thesis
  proof (cases "active s")
    case True
    with Tick assms(2) have "KeyPress_callback now s = Inr s'" by simp
    with assms(1) show ?thesis by (rule ref_callback)
  next
    case False
    with Tick assms show ?thesis by simp
  qed
next
  case (KeyDown ev)
  show ?thesis
  proof (cases "registered s")
    case True
    with KeyDown assms(2) have "KeyPress_key_callback ev s = Inr s'" by simp
    with assms(1) show ?thesis by (rule ref_key_callback)
  next
    case False
    with KeyDown assms show ?thesis by simp
  qed
next
  case ForceLeave
  with assms(2) have "s' = State_leave s" by simp
  with ref_leave [OF assms(1)] show ?thesis by simp
qed

lemma ref_run: "reference_inv t s0 s \<Longrightarrow> run ins s = Inr s' \<Longrightarrow> reference_inv t s0 s'"
proof (induction ins arbitrary: s)
  case Nil
  then show ?case by simp
next
  case (Cons i ins)
  from Cons.prems(2) obtain s1 where s1: "step i s = Inr s1" "run ins s1 = Inr s'"
    by (auto split: sum.splits)
  from Cons.IH [OF ref_step [OF Cons.prems(1) s1(1)] s1(2)] show ?case .
qed

text \<open>
  C5. A poll tick subscribes (lines 144-147) and fills the base time (lines 148-152)
  in one call, before anything is dispatched again: the state that the first tick of an
  activation entered at time \<open>t\<close> has produced when it reaches its exit test is
  registered, and its \<open>base_time\<close> is the reference time, which is the supplied base
  time, or \<open>t\<close> when none was supplied. An activation of a state that was not
  subscribed before never raises, and whenever its callback is registered its
  \<open>base_time\<close> is that number: the key callback returns on every key event, and on a
  qualifying event the recorded \<open>rt\<close> is the event's time minus the reference time.
\<close>

theorem KeyPress_dispatched_event_measured:
  assumes "unsubscribed s0"
  shows "registered (fill_base_time (subscribe (State_enter t s0))) \<and>
         base_time (fill_base_time (subscribe (State_enter t s0))) =
           Some (reference_time t s0) \<and>
         (\<exists>s. run ins (State_enter t s0) = Inr s \<and>
            (registered s \<longrightarrow>
               base_time s = Some (reference_time t s0) \<and>
               (\<forall>ev. \<exists>s'. KeyPress_key_callback ev s = Inr s' \<and>
                  (qualifies (keys s) ev \<longrightarrow>
                     rt s' = Some (time (event_time ev) - reference_time t s0)))))"
proof -
  have e: "lifecycle_inv (State_enter t s0)" "active (State_enter t s0)"
    using inv_enter [OF assms, of t] by (simp_all add: State_enter_def KeyPress_enter_def)
  from inv_subscribe_fill [OF e]
  have 1: "registered (fill_base_time (subscribe (State_enter t s0)))"
    by (auto simp: lifecycle_inv_def)
  from ref_middle [OF ref_enter]
  have 2: "base_time (fill_base_time (subscribe (State_enter t s0))) =
           Some (reference_time t s0)"
    by simp
  from inv_activation [OF assms, of ins t] obtain s
    where s: "run ins (State_enter t s0) = Inr s" "lifecycle_inv s" by blast
  from ref_run [OF ref_enter s(1)] have r: "reference_inv t s0 s" .
  have "base_time s = Some (reference_time t s0) \<and>
          (\<forall>ev. \<exists>s'. KeyPress_key_callback ev s = Inr s' \<and>
             (qualifies (keys s) ev \<longrightarrow>
                rt s' = Some (time (event_time ev) - reference_time t s0)))"
    if "registered s"
  proof -
    from s(2) that have "base_time s \<noteq> None"
      by (auto simp: lifecycle_inv_def)
    with r have b: "base_time s = Some (reference_time t s0)"
      by (auto simp: reference_inv_def)
    have "\<exists>s'. KeyPress_key_callback ev s = Inr s' \<and>
             (qualifies (keys s) ev \<longrightarrow>
                rt s' = Some (time (event_time ev) - reference_time t s0))" for ev
    proof (cases "qualifies (keys s) ev")
      case True
      then show ?thesis
        by (simp add: key_callback_accepted [OF True b] State_leave_fields)
    next
      case False
      then show ?thesis by (simp add: key_callback_ignored)
    qed
    with b show ?thesis by blast
  qed
  then have "\<exists>s. run ins (State_enter t s0) = Inr s \<and>
            (registered s \<longrightarrow>
               base_time s = Some (reference_time t s0) \<and>
               (\<forall>ev. \<exists>s'. KeyPress_key_callback ev s = Inr s' \<and>
                  (qualifies (keys s) ev \<longrightarrow>
                     rt s' = Some (time (event_time ev) - reference_time t s0))))"
    using s(1) by (intro exI [of _ s] conjI impI) simp_all
  with 1 2 show ?thesis by simp
qed

theorem KeyPress_dispatched_event_measured_witness:
  "unsubscribed example_keypress \<and>
   reference_time 10 example_keypress = 10 \<and>
   (\<exists>s. run [Tick 10.1] (State_enter 10 example_keypress) = Inr s \<and> registered s \<and>
        base_time s = Some 10 \<and>
        (\<exists>s'. KeyPress_key_callback (example_event ''k'' 10.42) s = Inr s' \<and>
              rt s' = Some 0.42))"
proof -
  let ?s = "fill_base_time (subscribe (State_enter 10 example_keypress))"
  let ?ev = "example_event ''k'' 10.42"
  have u: "unsubscribed example_keypress"
    by (simp add: example_defs)
  have t: "reference_time 10 example_keypress = 10"
    by (simp add: reference_time_def example_defs)
  have r: "run [Tick 10.1] (State_enter 10 example_keypress) = Inr ?s"
    by (simp add: example_defs)
  have g: "registered ?s" "base_time ?s = Some 10"
    by (simp_all add: example_defs)
  have q: "qualifies (keys ?s) ?ev"
    by (simp add: example_defs upper_examples)
  have d: "time (event_time ?ev) - 10 = 0.42"
    by (simp add: example_event_def)
  from KeyPress_dispatched_event_measured [OF u, of 10 "[Tick 10.1]"] r g
  have "\<exists>s'. KeyPress_key_callback ?ev ?s = Inr s' \<and>
             (qualifies (keys ?s) ?ev \<longrightarrow>
                rt s' = Some (time (event_time ?ev) - reference_time 10 example_keypress))"
    by auto
  with q have "\<exists>s'. KeyPress_key_callback ?ev ?s = Inr s' \<and> rt s' = Some 0.42"
    unfolding t d by blast
  with u t r g show ?thesis by blast
qed

text \<open>
  C6. An activation of a state that was not subscribed before has received ticks, key
  events and forced leaves, and the state is no longer active: it has left by an
  accepted key, by the exit test of a tick or by a forced leave. Then its key callback
  is not registered with the dispatcher, the state is not waiting, and a key event
  dispatched now leaves the state as it is.
\<close>

theorem KeyPress_exit_unregisters:
  assumes "unsubscribed s0" and "run ins (State_enter t s0) = Inr s" and "\<not> active s"
  shows "\<not> registered s \<and> \<not> waiting s \<and> (\<forall>ev. step (KeyDown ev) s = Inr s)"
proof -
  from inv_activation [OF assms(1), of ins t] assms(2) have "lifecycle_inv s"
    by simp
  from inv_inactive [OF this assms(3)] show ?thesis
    by (simp add: unsubscribed_def)
qed

theorem KeyPress_exit_unregisters_witness:
  "unsubscribed example_keypress \<and>
   (\<exists>s. run [Tick 10.1, ForceLeave] (State_enter 10 example_keypress) = Inr s \<and>
        \<not> active s \<and> \<not> registered s \<and> \<not> waiting s \<and> app s ''KEY_DOWN'' = []) \<and>
   (\<exists>s. run [Tick 10.1, Tick 12] (State_enter 10 example_keypress) = Inr s \<and>
        \<not> active s \<and> \<not> registered s \<and> \<not> waiting s) \<and>
   (\<exists>s. run [Tick 10.1, KeyDown (example_event ''k'' 10.42)] (State_enter 10 example_keypress) = Inr s \<and>
        \<not> active s \<and> \<not> registered s \<and> \<not> waiting s)"
proof -
  let ?s = "fill_base_time (subscribe (State_enter 10 example_keypress))"
  let ?a = "State_leave ?s"
  let ?c = "State_leave (?s\<lparr> pressed := ''K'', press_time := Some \<lparr> time = 10.42 \<rparr>,
              rt := Some 0.42, correct := True \<rparr>)"
  have u: "unsubscribed example_keypress"
    by (simp add: example_defs)
  have a: "run [Tick 10.1, ForceLeave] (State_enter 10 example_keypress) = Inr ?a"
    "\<not> active ?a" "app ?a ''KEY_DOWN'' = []"
    by (simp_all add: example_defs)
  have b: "run [Tick 10.1, Tick 12] (State_enter 10 example_keypress) = Inr ?a"
    by (simp add: example_defs)
  have c: "run [Tick 10.1, KeyDown (example_event ''k'' 10.42)] (State_enter 10 example_keypress) = Inr ?c"
    "\<not> active ?c"
    by (simp_all add: example_defs KeyPress_key_callback_def upper_examples)
  from KeyPress_exit_unregisters [OF u a(1) a(2)] KeyPress_exit_unregisters [OF u c(1) c(2)]
    u a b c show ?thesis
    by simp
qed

end
